theory Spec2Isabelle
  imports Main
begin

unbundle bit_operations_syntax

section \<open>rank\_run: one command or script per MPI rank\<close>

text \<open>
  A shallow embedding of \<^verbatim>\<open>rank_run.c\<close>. C strings are modelled by their contents
  (a \<^typ>\<open>string\<close> without the terminating NUL); a character buffer that may hold bytes
  after a NUL is read through \<open>cstr\<close>. The two-dimensional array \<^verbatim>\<open>commands\<close> is a
  store from row index to the C string held in that row, and every access states the
  bound \<^verbatim>\<open>MAX_RANKS\<close> of the array explicitly.
\<close>

subsection \<open>Constants\<close>

definition MAX_LINE :: nat where
  "MAX_LINE = 5000"

definition MAX_RANKS :: nat where
  "MAX_RANKS = 5000"

subsection \<open>C strings and \<^verbatim>\<open>trim\<close>\<close>

text \<open>The C string held in a buffer: the bytes before the first NUL.\<close>

definition cstr :: "string \<Rightarrow> string" where
  "cstr buf = takeWhile (\<lambda>c. c \<noteq> CHR 0x00) buf"

text \<open>The character test of both loops of \<^verbatim>\<open>trim\<close>: space, tab, newline, carriage return.\<close>

definition is_ws :: "char \<Rightarrow> bool" where
  "is_ws c \<longleftrightarrow> c = CHR '' '' \<or> c = CHR 0x09 \<or> c = CHR 0x0A \<or> c = CHR 0x0D"

text \<open>\<^verbatim>\<open>while (*p && (*p==' ' || ...)) p++;\<close> returns the buffer from \<^verbatim>\<open>p\<close> on.\<close>

fun skip_ws :: "string \<Rightarrow> string" where
  "skip_ws [] = []"
| "skip_ws (c # cs) = (if c \<noteq> CHR 0x00 \<and> is_ws c then skip_ws cs else c # cs)"

text \<open>
  \<^verbatim>\<open>for (int i = strlen(s)-1; i>=0 && (s[i]==' '||...); i--) s[i]='\0';\<close>
  Writing NUL at index \<open>i\<close> of a C string of length above \<open>i\<close> leaves its first \<open>i\<close>
  characters.
\<close>

function trim_tail :: "string \<Rightarrow> int \<Rightarrow> string" where
  "trim_tail s i =
     (if 0 \<le> i \<and> is_ws (s ! nat i) then trim_tail (take (nat i) s) (i - 1) else s)"
  by pat_completeness auto
termination
  by (relation "measure (\<lambda>(s, i). nat (i + 1))") auto

declare trim_tail.simps [simp del]

text \<open>\<^verbatim>\<open>memmove(s, p, strlen(p)+1)\<close> makes the C string at \<^verbatim>\<open>p\<close> the C string at \<^verbatim>\<open>s\<close>.\<close>

definition trim :: "string \<Rightarrow> string" where
  "trim buf = (let s = cstr (skip_ws buf) in trim_tail s (int (length s) - 1))"

subsection \<open>Reading the command file\<close>

text \<open>
  \<^verbatim>\<open>fgets(buf, n, fp)\<close> on the unread rest of the file: at end of file it returns NULL
  and leaves the buffer alone; otherwise it stores at most \<open>n - 1\<close> characters, stopping
  after a newline, and the rest of the file stays unread.
\<close>

fun fgets_take :: "nat \<Rightarrow> string \<Rightarrow> string \<times> string" where
  "fgets_take n [] = ([], [])"
| "fgets_take n (c # cs) =
     (if n = 0 then ([], c # cs)
      else if c = CHR 0x0A then ([c], cs)
      else (case fgets_take (n - 1) cs of (a, b) \<Rightarrow> (c # a, b)))"

definition fgets :: "nat \<Rightarrow> string \<Rightarrow> (string \<times> string) option" where
  "fgets n fp = (if fp = [] then None else Some (fgets_take (n - 1) fp))"

datatype error = OutOfBounds nat

record roster =
  commands :: "nat \<Rightarrow> string"
  num_commands :: nat

text \<open>\<^verbatim>\<open>char commands[MAX_RANKS][MAX_LINE] = {0}; int num_commands = 0;\<close>\<close>

definition roster_init :: roster where
  "roster_init = \<lparr>commands = (\<lambda>_. []), num_commands = 0\<rparr>"

text \<open>\<^verbatim>\<open>commands[num_commands][0] != '\0' && commands[num_commands][0] != '#'\<close>\<close>

definition qualifies :: "string \<Rightarrow> bool" where
  "qualifies s = (case s of [] \<Rightarrow> False | c # _ \<Rightarrow> c \<noteq> CHR ''#'')"

text \<open>The loop body: trim the row just read and count it when it qualifies.\<close>

definition store_line :: "string \<Rightarrow> roster \<Rightarrow> roster" where
  "store_line chunk st =
     (let line = trim chunk;
          st1 = st\<lparr>commands := (commands st)(num_commands st := line)\<rparr>
      in if qualifies line then st1\<lparr>num_commands := num_commands st + 1\<rparr> else st1)"

text \<open>
  \<^verbatim>\<open>while (fgets(commands[num_commands], MAX_LINE, fp) && num_commands < MAX_RANKS)\<close>
  The call of \<^verbatim>\<open>fgets\<close> comes first in the condition: with \<open>num_commands = MAX_RANKS\<close> and
  input left, it has stored into row \<open>MAX_RANKS\<close>, past the end of the array, before the
  bound is tested.
\<close>

function parse_loop :: "string \<Rightarrow> roster \<Rightarrow> error + roster" where
  "parse_loop fp st =
     (case fgets MAX_LINE fp of
        None \<Rightarrow> Inr st
      | Some (chunk, rest) \<Rightarrow>
          if num_commands st < MAX_RANKS then parse_loop rest (store_line chunk st)
          else Inl (OutOfBounds (num_commands st)))"
  by pat_completeness auto
termination
proof (relation "measure (\<lambda>(fp, st). length fp)")
  show "wf (measure (\<lambda>(fp, st). length fp))" by simp
next
  fix fp :: string and st :: roster and x2 :: "string \<times> string" and chunk rest :: string
  assume g: "fgets MAX_LINE fp = Some x2" and x: "(chunk, rest) = x2"
  have le: "length (snd (fgets_take n cs)) \<le> length cs" for n cs
    by (induction n cs rule: fgets_take.induct) (auto split: prod.splits)
  have lt: "length (snd (fgets_take n cs)) < length cs" if "0 < n" "cs \<noteq> []" for n cs
  proof (cases cs)
    case Nil
    with that show ?thesis by simp
  next
    case (Cons c cs')
    with that le[of "n - 1" cs'] show ?thesis
      by (auto split: prod.splits simp: less_Suc_eq_le)
  qed
  from g x have "fp \<noteq> []" and "rest = snd (fgets_take (MAX_LINE - 1) fp)"
    by (auto simp: fgets_def split: if_splits)
  with lt[of "MAX_LINE - 1" fp] have "length rest < length fp"
    by (simp add: MAX_LINE_def)
  then show "((rest, store_line chunk st), fp, st) \<in> measure (\<lambda>(fp, st). length fp)"
    by simp
qed

declare parse_loop.simps [simp del]

subsection \<open>Child processes and their wait status\<close>

text \<open>
  The status word that \<^verbatim>\<open>system\<close> returns is decoded with the macros of
  \<^verbatim>\<open><sys/wait.h>\<close>, which are not part of the repository; they are modelled as Linux
  defines them: \<^verbatim>\<open>WIFEXITED(s)\<close> is \<^verbatim>\<open>((s) & 0x7f) == 0\<close> and
  \<^verbatim>\<open>WEXITSTATUS(s)\<close> is \<^verbatim>\<open>((s) & 0xff00) >> 8\<close>.
\<close>

definition WIFEXITED :: "int \<Rightarrow> bool" where
  "WIFEXITED s \<longleftrightarrow> s AND 0x7f = 0"

definition WEXITSTATUS :: "int \<Rightarrow> int" where
  "WEXITSTATUS s = drop_bit 8 (s AND 0xff00)"

text \<open>
  How a child of \<^verbatim>\<open>system\<close> can end, and the status word Linux reports for it: exit
  code \<open>c\<close> in the second byte, the signal number (and the core flag) in the low byte,
  \<open>-1\<close> when no child could be created.
\<close>

datatype child_end = Exited nat | Signaled nat bool | LaunchFailed

fun wait_status :: "child_end \<Rightarrow> int" where
  "wait_status (Exited c) = push_bit 8 (int c)"
| "wait_status (Signaled sig core) = int sig + (if core then 0x80 else 0)"
| "wait_status LaunchFailed = - 1"

text \<open>What a member does that can be seen from outside, in program order.\<close>

datatype event =
    Usage
  | ExecutingScript nat string
  | ExecutingCommand nat string
  | System string
  | CommandFailed nat int string
  | ScriptNotFound string
  | FileNotFound string
  | ExtraIgnored nat nat
  | Send nat string
  | Recv string

text \<open>How \<^verbatim>\<open>main\<close> ends: \<^verbatim>\<open>return code\<close> after \<^verbatim>\<open>MPI_Finalize\<close>, or \<^verbatim>\<open>MPI_Abort(MPI_COMM_WORLD, code)\<close>.\<close>

datatype outcome = Return int | Abort int

text \<open>
  The world a member runs in: which paths \<^verbatim>\<open>access(path, F_OK)\<close> finds, the status
  word \<^verbatim>\<open>system\<close> returns for a command line, and the contents of the file \<^verbatim>\<open>fopen\<close>
  opens (\<open>None\<close> when it cannot be opened).
\<close>

record env =
  access_ok :: "string \<Rightarrow> bool"
  system_status :: "string \<Rightarrow> int"
  fopen_r :: "string \<Rightarrow> string option"

text \<open>
  A world for examples: no script exists, every command succeeds, and every path opens
  the file with the contents \<open>fp\<close>.
\<close>

definition env_with_file :: "string \<Rightarrow> env" where
  "env_with_file fp =
     \<lparr>access_ok = (\<lambda>_. False), system_status = (\<lambda>_. 0), fopen_r = (\<lambda>_. Some fp)\<rparr>"

text \<open>\<^verbatim>\<open>int exitcode = -1; if (WIFEXITED(ret)) exitcode = WEXITSTATUS(ret);\<close>\<close>

definition exitcode_of :: "int \<Rightarrow> int" where
  "exitcode_of ret = (if WIFEXITED ret then WEXITSTATUS ret else - 1)"

text \<open>
  \<^verbatim>\<open>int ret = system(mycmd); if (ret != 0) { ...; MPI_Abort(MPI_COMM_WORLD, exitcode); }\<close>
  and, when the status is zero, the fall through to \<^verbatim>\<open>MPI_Finalize(); return 0;\<close>.
\<close>

definition run_system :: "env \<Rightarrow> nat \<Rightarrow> string \<Rightarrow> event list \<times> outcome" where
  "run_system e rank mycmd =
     (let ret = system_status e mycmd in
      if ret \<noteq> 0
      then ([System mycmd, CommandFailed rank (exitcode_of ret) mycmd], Abort (exitcode_of ret))
      else ([System mycmd], Return 0))"

subsection \<open>Pattern mode\<close>

text \<open>\<^verbatim>\<open>strchr(arg, c)\<close> as the offset of the first occurrence, \<open>None\<close> for NULL.\<close>

fun strchr :: "string \<Rightarrow> char \<Rightarrow> nat option" where
  "strchr [] c = None"
| "strchr (x # xs) c = (if x = c then Some 0 else map_option Suc (strchr xs c))"

text \<open>The conversion \<^verbatim>\<open>%d\<close> of a rank, which is never negative.\<close>

definition digit :: "nat \<Rightarrow> char" where
  "digit d = ''0123456789'' ! d"

function decimal :: "nat \<Rightarrow> string" where
  "decimal n = (if n < 10 then [digit n] else decimal (n div 10) @ [digit (n mod 10)])"
  by pat_completeness auto
termination
  by (relation "measure id") auto

declare decimal.simps [simp del]

text \<open>\<^verbatim>\<open>snprintf(buf, size, ...)\<close> keeps at most \<open>size - 1\<close> characters of the formatted text.\<close>

definition snprintf :: "nat \<Rightarrow> string \<Rightarrow> string" where
  "snprintf n text = take (n - 1) text"

text \<open>
  \<^verbatim>\<open>snprintf(scriptfile, sizeof(scriptfile), "%.*s%d%s", (int)(star-arg), arg, rank, star+1)\<close>
\<close>

definition scriptfile_of :: "string \<Rightarrow> nat \<Rightarrow> nat \<Rightarrow> string" where
  "scriptfile_of arg star rank =
     snprintf MAX_LINE (take star arg @ decimal rank @ drop (star + 1) arg)"

definition pattern_mode :: "env \<Rightarrow> string \<Rightarrow> nat \<Rightarrow> nat \<Rightarrow> event list \<times> outcome" where
  "pattern_mode e arg star rank =
     (let scriptfile = scriptfile_of arg star rank in
      if access_ok e scriptfile
      then (let mycmd = snprintf MAX_LINE (''bash '' @ scriptfile);
                (evs, out) = run_system e rank mycmd
            in (ExecutingScript rank scriptfile # evs, out))
      else ([ScriptNotFound scriptfile], Return 0))"

subsection \<open>Roster mode\<close>

text \<open>
  \<^verbatim>\<open>for (int i=1; i<size; i++) MPI_Send(commands[i], MAX_LINE, MPI_CHAR, i, 0, ...);\<close>
  Each message is the row of its destination rank; a row index from \<open>MAX_RANKS\<close> on is
  outside the array.
\<close>

function send_loop :: "roster \<Rightarrow> nat \<Rightarrow> nat \<Rightarrow> error + (nat \<times> string) list" where
  "send_loop st i n =
     (if i < n
      then (if i < MAX_RANKS
            then (case send_loop st (i + 1) n of
                    Inl err \<Rightarrow> Inl err
                  | Inr msgs \<Rightarrow> Inr ((i, commands st i) # msgs))
            else Inl (OutOfBounds i))
      else Inr [])"
  by pat_completeness auto
termination
  by (relation "measure (\<lambda>(st, i, n). n - i)") auto

declare send_loop.simps [simp del]

text \<open>\<^verbatim>\<open>char mycmd[MAX_LINE] = ""; ... if (num_commands > 0) strcpy(mycmd, commands[0]);\<close>\<close>

definition mycmd0 :: "roster \<Rightarrow> string" where
  "mycmd0 st = (if 0 < num_commands st then commands st 0 else [])"

text \<open>\<^verbatim>\<open>if (mycmd[0] != '\0') { printf(...); int ret = system(mycmd); ... }\<close>\<close>

definition run_mycmd :: "env \<Rightarrow> nat \<Rightarrow> string \<Rightarrow> event list \<times> outcome" where
  "run_mycmd e rank mycmd =
     (if mycmd \<noteq> []
      then (case run_system e rank mycmd of (evs, out) \<Rightarrow> (ExecutingCommand rank mycmd # evs, out))
      else ([], Return 0))"

text \<open>
  Rank 0 opens and reads the file, warns, sends and then runs its own command. Any other
  rank receives one message, \<open>inbox\<close>, and runs it. \<^verbatim>\<open>MPI_Abort\<close> ends the coordinator when
  the file cannot be opened.
\<close>

definition roster_mode ::
    "env \<Rightarrow> string \<Rightarrow> nat \<Rightarrow> nat \<Rightarrow> string \<Rightarrow> error + (event list \<times> outcome)" where
  "roster_mode e arg rank n inbox =
     (if rank = 0
      then (case fopen_r e arg of
              None \<Rightarrow> Inr ([FileNotFound arg], Abort 1)
            | Some fp \<Rightarrow>
                (case parse_loop fp roster_init of
                   Inl err \<Rightarrow> Inl err
                 | Inr st \<Rightarrow>
                     (case send_loop st 1 n of
                        Inl err \<Rightarrow> Inl err
                      | Inr msgs \<Rightarrow>
                          (case run_mycmd e 0 (mycmd0 st) of
                             (evs, out) \<Rightarrow>
                               Inr ((if n < num_commands st
                                     then [ExtraIgnored (num_commands st) n] else [])
                                    @ map (\<lambda>(i, m). Send i m) msgs @ evs, out)))))
      else (case run_mycmd e rank inbox of (evs, out) \<Rightarrow> Inr (Recv inbox # evs, out)))"

text \<open>
  \<^verbatim>\<open>main\<close> of one member of a group of \<open>n\<close>; \<open>args\<close> is \<^verbatim>\<open>argv\<close> without the program
  name.
\<close>

definition rank_run ::
    "env \<Rightarrow> string list \<Rightarrow> nat \<Rightarrow> nat \<Rightarrow> string \<Rightarrow> error + (event list \<times> outcome)" where
  "rank_run e args rank n inbox =
     (case args of
        [arg] \<Rightarrow>
          (case strchr arg (CHR ''*'') of
             Some star \<Rightarrow> Inr (pattern_mode e arg star rank)
           | None \<Rightarrow> roster_mode e arg rank n inbox)
      | _ \<Rightarrow> Inr (if rank = 0 then [Usage] else [], Return 1))"

subsection \<open>The roster as the specification describes it\<close>

text \<open>The lines of a text, each with its newline when it has one.\<close>

fun split_lines :: "string \<Rightarrow> string list" where
  "split_lines [] = []"
| "split_lines (c # cs) =
     (if c = CHR 0x0A then [c] # split_lines cs
      else (case split_lines cs of [] \<Rightarrow> [[c]] | l # ls \<Rightarrow> (c # l) # ls))"

text \<open>A line without its leading and trailing whitespace.\<close>

definition strip :: "string \<Rightarrow> string" where
  "strip s = rev (dropWhile is_ws (rev (dropWhile is_ws s)))"

text \<open>A comment line: the first character that is not whitespace is \<open>#\<close>.\<close>

definition is_comment :: "string \<Rightarrow> bool" where
  "is_comment l = (case dropWhile is_ws l of [] \<Rightarrow> False | c # _ \<Rightarrow> c = CHR ''#'')"

text \<open>A blank line: whitespace only.\<close>

definition is_blank :: "string \<Rightarrow> bool" where
  "is_blank l = list_all is_ws l"

text \<open>The valid lines of a roster file, stripped, in file order.\<close>

definition valid_lines :: "string \<Rightarrow> string list" where
  "valid_lines fp =
     map strip (filter (\<lambda>l. \<not> is_blank l \<and> \<not> is_comment l) (split_lines fp))"

subsection \<open>Task outcomes as the specification describes them\<close>

text \<open>
  The endings of a child that the operating system can report: an exit code has eight
  bits, a signal number lies between 1 and 127.
\<close>

definition reportable :: "child_end \<Rightarrow> bool" where
  "reportable t =
     (case t of Exited c \<Rightarrow> c < 256 | Signaled sig core \<Rightarrow> 0 < sig \<and> sig < 128 | LaunchFailed \<Rightarrow> True)"

text \<open>
  How a member ends for each ending of its child: success lets it return 0, a failure
  with code \<open>c\<close> aborts the group with \<open>c\<close>, an abnormal end aborts it with \<open>-1\<close>.
\<close>

definition expected_outcome :: "child_end \<Rightarrow> outcome" where
  "expected_outcome t =
     (case t of
        Exited c \<Rightarrow> (if c = 0 then Return 0 else Abort (int c))
      | Signaled sig core \<Rightarrow> Abort (- 1)
      | LaunchFailed \<Rightarrow> Abort (- 1))"

text \<open>The launch of the command and, on failure, the diagnostic with the reported code.\<close>

definition child_events :: "nat \<Rightarrow> string \<Rightarrow> child_end \<Rightarrow> event list" where
  "child_events rank cmd t =
     (case expected_outcome t of
        Return c \<Rightarrow> [System cmd]
      | Abort c \<Rightarrow> [System cmd, CommandFailed rank c cmd])"

subsection \<open>Auxiliary notions for the proofs\<close>

text \<open>
  The pieces of the file in the order in which the loop reads them, one for every call
  of \<^verbatim>\<open>fgets\<close> that returns data.
\<close>

function chunks :: "string \<Rightarrow> string list" where
  "chunks fp =
     (case fgets MAX_LINE fp of
        None \<Rightarrow> []
      | Some (chunk, rest) \<Rightarrow> chunk # chunks rest)"
  by pat_completeness auto
termination
proof (relation "measure length")
  show "wf (measure length)" by simp
next
  fix fp :: string and x2 :: "string \<times> string" and chunk rest :: string
  assume g: "fgets MAX_LINE fp = Some x2" and x: "(chunk, rest) = x2"
  have le: "length (snd (fgets_take n cs)) \<le> length cs" for n cs
    by (induction n cs rule: fgets_take.induct) (auto split: prod.splits)
  from g x obtain c cs where fp: "fp = c # cs" and r: "rest = snd (fgets_take (MAX_LINE - 1) fp)"
    by (cases fp) (auto simp: fgets_def split: if_splits)
  with le[of "MAX_LINE - 2" cs] have "length rest < length fp"
    by (auto simp: MAX_LINE_def split: prod.splits)
  then show "(rest, fp) \<in> measure length" by simp
qed

declare chunks.simps [simp del]

text \<open>The loop of \<open>parse_loop\<close> run over chunks that \<^verbatim>\<open>fgets\<close> has already cut.\<close>

fun store_lines :: "string list \<Rightarrow> roster \<Rightarrow> error + roster" where
  "store_lines [] st = Inr st"
| "store_lines (l # ls) st =
     (if num_commands st < MAX_RANKS then store_lines ls (store_line l st)
      else Inl (OutOfBounds (num_commands st)))"

text \<open>The rows that are counted: the trimmed chunks that qualify, in order.\<close>

definition entries :: "string list \<Rightarrow> string list" where
  "entries ls = filter qualifies (map trim ls)"

text \<open>The loop body applied to every chunk, with the bound of the array left aside.\<close>

abbreviation store_all :: "roster \<Rightarrow> string list \<Rightarrow> roster" where
  "store_all st ls \<equiv> foldl (\<lambda>s l. store_line l s) st ls"

text \<open>The table after the loop body has run on every piece of the file.\<close>

definition all_stored :: "string \<Rightarrow> roster" where
  "all_stored fp = store_all roster_init (chunks fp)"


text \<open>The value of a decimal digit character.\<close>

fun digit_value :: "char \<Rightarrow> nat" where
  "digit_value c = of_char c - 48"

section \<open>Properties of \<^verbatim>\<open>trim\<close>\<close>

lemma skip_ws_dropWhile: "skip_ws s = dropWhile is_ws s"
  by (induction s) (auto simp: is_ws_def)

lemma cstr_dropWhile_ws: "cstr (dropWhile is_ws s) = dropWhile is_ws (cstr s)"
  by (induction s) (auto simp: cstr_def is_ws_def)

lemma trim_tail_rev: "trim_tail s (int (length s) - 1) = rev (dropWhile is_ws (rev s))"
proof (induction s rule: rev_induct)
  case Nil
  show ?case by (subst trim_tail.simps) simp
next
  case (snoc x xs)
  have "trim_tail (xs @ [x]) (int (length (xs @ [x])) - 1) =
        (if is_ws x then trim_tail xs (int (length xs) - 1) else xs @ [x])"
    by (subst trim_tail.simps) simp
  with snoc show ?case by simp
qed

lemma trim_eq: "trim s = rev (dropWhile is_ws (rev (dropWhile is_ws (cstr s))))"
  by (simp add: trim_def Let_def skip_ws_dropWhile cstr_dropWhile_ws trim_tail_rev)

lemma rev_dropWhile_decomp: "xs = rev (dropWhile P (rev xs)) @ rev (takeWhile P (rev xs))"
  by (metis rev_append rev_rev_ident takeWhile_dropWhile_id)

lemma dropWhile_all_iff:
  "(\<forall>x \<in> set (dropWhile P xs). P x) \<longleftrightarrow> (\<forall>x \<in> set xs. P x)"
  by (induction xs) auto

text \<open>
  Claim C9. For every C string \<open>cstr s\<close> handed to \<^verbatim>\<open>trim\<close>, the result is the string
  between its longest leading run and its longest trailing run of space, tab, CR and LF:
  the string is the leading run, then the result, then the trailing run, unchanged in
  between; a result that is not empty neither starts nor ends with such a character;
  and the result is empty exactly when the string holds only such characters.
\<close>

theorem trim_spec:
  "cstr s = takeWhile is_ws (cstr s) @ trim s
            @ rev (takeWhile is_ws (rev (dropWhile is_ws (cstr s))))
   \<and> (trim s \<noteq> [] \<longrightarrow> \<not> is_ws (hd (trim s)) \<and> \<not> is_ws (last (trim s)))
   \<and> (trim s = [] \<longleftrightarrow> (\<forall>c \<in> set (cstr s). is_ws c))"
proof (intro conjI)
  let ?d = "dropWhile is_ws (cstr s)"
  have d: "?d = trim s @ rev (takeWhile is_ws (rev ?d))"
    using rev_dropWhile_decomp[of ?d is_ws] by (simp add: trim_eq)
  then show "cstr s = takeWhile is_ws (cstr s) @ trim s @ rev (takeWhile is_ws (rev ?d))"
    by (metis takeWhile_dropWhile_id)
  show "trim s \<noteq> [] \<longrightarrow> \<not> is_ws (hd (trim s)) \<and> \<not> is_ws (last (trim s))"
  proof
    assume ne: "trim s \<noteq> []"
    then have r: "dropWhile is_ws (rev ?d) \<noteq> []" by (simp add: trim_eq)
    have l: "\<not> is_ws (last (trim s))"
      using r by (simp add: trim_eq last_rev hd_dropWhile)
    have "?d \<noteq> []"
    proof
      assume "?d = []"
      with r show False by simp
    qed
    then have h: "\<not> is_ws (hd ?d)" by (rule hd_dropWhile)
    have "hd (trim s) = hd ?d"
      using d ne by (metis hd_append2)
    with h l show "\<not> is_ws (hd (trim s)) \<and> \<not> is_ws (last (trim s))" by simp
  qed
  show "trim s = [] \<longleftrightarrow> (\<forall>c \<in> set (cstr s). is_ws c)"
    by (simp add: trim_eq dropWhile_eq_Nil_conv dropWhile_all_iff)
qed

theorem trim_spec_witness:
  "trim [CHR 0x09, CHR '' '', CHR ''e'', CHR '' '', CHR ''A'', CHR '' '', CHR 0x0D, CHR 0x0A] = ''e A''
   \<and> \<not> is_ws (hd (trim [CHR 0x09, CHR '' '', CHR ''e'', CHR '' '', CHR ''A'', CHR '' '', CHR 0x0D, CHR 0x0A]))
   \<and> \<not> is_ws (last (trim [CHR 0x09, CHR '' '', CHR ''e'', CHR '' '', CHR ''A'', CHR '' '', CHR 0x0D, CHR 0x0A]))"
proof -
  let ?s = "[CHR 0x09, CHR '' '', CHR ''e'', CHR '' '', CHR ''A'', CHR '' '', CHR 0x0D, CHR 0x0A]"
  have v: "trim ?s = ''e A''"
    by (simp add: trim_def cstr_def is_ws_def trim_tail.simps Let_def)
  then have "trim ?s \<noteq> []" by simp
  with trim_spec[of ?s] v show ?thesis by blast
qed

section \<open>Pattern mode: the resolved path\<close>

lemma strchr_split:
  "strchr arg c = Some i \<Longrightarrow>
     take i arg = takeWhile (\<lambda>x. x \<noteq> c) arg
     \<and> drop (i + 1) arg = tl (dropWhile (\<lambda>x. x \<noteq> c) arg)
     \<and> arg = takeWhile (\<lambda>x. x \<noteq> c) arg @ c # tl (dropWhile (\<lambda>x. x \<noteq> c) arg)"
  by (induction arg arbitrary: i) (auto split: if_splits)

lemma strchr_append: "c \<notin> set p \<Longrightarrow> strchr (p @ c # s) c = Some (length p)"
  by (induction p) auto

lemma decimal_digit: "n < 10 \<Longrightarrow> decimal n = [digit n]"
  by (subst decimal.simps) simp

lemma digit_value_digit: "d < 10 \<Longrightarrow> digit_value (digit d) = d"
proof -
  assume "d < 10"
  then have "d = 0 \<or> d = 1 \<or> d = 2 \<or> d = 3 \<or> d = 4 \<or> d = 5 \<or> d = 6 \<or> d = 7 \<or> d = 8 \<or> d = 9"
    by presburger
  then show ?thesis by (elim disjE) (simp_all add: digit_def)
qed

lemma decimal_value: "foldl (\<lambda>v c. 10 * v + digit_value c) 0 (decimal n) = n"
proof (induction n rule: decimal.induct)
  case (1 n)
  show ?case
  proof (cases "n < 10")
    case True
    then show ?thesis by (subst decimal.simps) (simp add: digit_value_digit del: digit_value.simps)
  next
    case False
    with 1 show ?thesis
      by (subst decimal.simps) (simp add: digit_value_digit del: digit_value.simps)
  qed
qed

text \<open>
  Claim C6, as amended. When the argument holds a \<open>*\<close>, it is the text before the first
  \<open>*\<close>, the \<open>*\<close>, and the text after it, and the resolved path of rank \<open>r\<close> is the first
  \<open>MAX_LINE - 1\<close> characters of: the text before, the decimal digits of \<open>r\<close>, the text
  after (with any later \<open>*\<close> unchanged). When that string is shorter than \<open>MAX_LINE\<close> the
  resolved path is the whole of it.
\<close>

theorem scriptfile_spec:
  assumes "strchr arg (CHR ''*'') = Some star"
  shows "arg = takeWhile (\<lambda>x. x \<noteq> CHR ''*'') arg @ CHR ''*'' # tl (dropWhile (\<lambda>x. x \<noteq> CHR ''*'') arg)
    \<and> scriptfile_of arg star r =
      take (MAX_LINE - 1) (takeWhile (\<lambda>x. x \<noteq> CHR ''*'') arg @ decimal r
                            @ tl (dropWhile (\<lambda>x. x \<noteq> CHR ''*'') arg))
    \<and> (length (takeWhile (\<lambda>x. x \<noteq> CHR ''*'') arg @ decimal r
                @ tl (dropWhile (\<lambda>x. x \<noteq> CHR ''*'') arg)) < MAX_LINE \<longrightarrow>
        scriptfile_of arg star r =
          takeWhile (\<lambda>x. x \<noteq> CHR ''*'') arg @ decimal r @ tl (dropWhile (\<lambda>x. x \<noteq> CHR ''*'') arg))"
proof -
  note sp = strchr_split[OF assms]
  have eq: "scriptfile_of arg star r =
      take (MAX_LINE - 1) (takeWhile (\<lambda>x. x \<noteq> CHR ''*'') arg @ decimal r
                            @ tl (dropWhile (\<lambda>x. x \<noteq> CHR ''*'') arg))"
    using sp by (simp add: scriptfile_of_def snprintf_def)
  from sp eq show ?thesis by simp
qed

theorem scriptfile_spec_witness:
  "strchr ''wgrib_*.sh'' (CHR ''*'') = Some 6 \<and> scriptfile_of ''wgrib_*.sh'' 6 3 = ''wgrib_3.sh''"
proof -
  have h: "strchr ''wgrib_*.sh'' (CHR ''*'') = Some 6" by simp
  have d: "decimal 3 = ''3''" by (simp add: decimal_digit digit_def)
  from scriptfile_spec[OF h, of 3] d h show ?thesis by (simp add: MAX_LINE_def)
qed

text \<open>
  Claim C6 as stated fails for a long argument: with 4999 characters before the \<open>*\<close>,
  the digit of rank 0 no longer fits the buffer of \<^verbatim>\<open>snprintf\<close> and is cut off.
\<close>

theorem scriptfile_truncated:
  "strchr (replicate 4999 (CHR ''a'') @ ''*'') (CHR ''*'') = Some 4999
   \<and> scriptfile_of (replicate 4999 (CHR ''a'') @ ''*'') 4999 0 = replicate 4999 (CHR ''a'')
   \<and> scriptfile_of (replicate 4999 (CHR ''a'') @ ''*'') 4999 0
       \<noteq> replicate 4999 (CHR ''a'') @ decimal 0 @ []"
proof -
  have "strchr (replicate 4999 (CHR ''a'') @ CHR ''*'' # []) (CHR ''*'')
          = Some (length (replicate 4999 (CHR ''a'')))"
    by (rule strchr_append) simp
  then have s: "strchr (replicate 4999 (CHR ''a'') @ ''*'') (CHR ''*'') = Some 4999" by simp
  have v: "scriptfile_of (replicate 4999 (CHR ''a'') @ ''*'') 4999 0 = replicate 4999 (CHR ''a'')"
    by (simp add: scriptfile_of_def snprintf_def MAX_LINE_def)
  have "length (replicate 4999 (CHR ''a'') @ decimal 0 @ []) \<noteq> length (replicate 4999 (CHR ''a''))"
    by (simp add: decimal_digit)
  then have "replicate 4999 (CHR ''a'') @ decimal 0 @ [] \<noteq> replicate 4999 (CHR ''a'')"
    by metis
  with s v show ?thesis by simp
qed

section \<open>Decoding the wait status\<close>

lemma and_127: "(x::int) AND 127 = x mod 128"
proof -
  have "x AND mask 7 = x mod 2 ^ 7"
    by (simp only: take_bit_eq_mask[symmetric] take_bit_eq_mod)
  then show ?thesis by (simp add: mask_eq_exp_minus_1)
qed

lemma and_255: "(x::int) AND 255 = x mod 256"
proof -
  have "x AND mask 8 = x mod 2 ^ 8"
    by (simp only: take_bit_eq_mask[symmetric] take_bit_eq_mod)
  then show ?thesis by (simp add: mask_eq_exp_minus_1)
qed

lemma wifexited_exited: "WIFEXITED (wait_status (Exited c))"
  by (simp add: WIFEXITED_def and_127 push_bit_eq_mult)

lemma drop_bit_and_ff00: "drop_bit 8 ((x::int) AND 0xff00) = drop_bit 8 x AND 255"
proof -
  have "drop_bit 8 (x AND 0xff00) = drop_bit 8 x AND drop_bit 8 (0xff00::int)"
    by (rule bit_eqI) (simp add: bit_simps)
  also have "drop_bit 8 (0xff00::int) = 255" by (simp add: drop_bit_eq_div)
  finally show ?thesis .
qed

lemma wexitstatus_exited:
  assumes "c < 256"
  shows "WEXITSTATUS (wait_status (Exited c)) = int c"
proof -
  have "WEXITSTATUS (wait_status (Exited c)) = drop_bit 8 (push_bit 8 (int c)) AND 255"
    by (simp only: WEXITSTATUS_def wait_status.simps drop_bit_and_ff00)
  also have "drop_bit 8 (push_bit 8 (int c)) = int c"
    by (simp add: drop_bit_eq_div push_bit_eq_mult)
  finally show ?thesis using assms by (simp add: and_255)
qed

lemma wifexited_signaled: "0 < sig \<Longrightarrow> sig < 128 \<Longrightarrow> \<not> WIFEXITED (wait_status (Signaled sig core))"
  by (auto simp: WIFEXITED_def and_127)

lemma wifexited_launch: "\<not> WIFEXITED (wait_status LaunchFailed)"
  by (simp add: WIFEXITED_def)

lemma wait_status_zero: "wait_status (Exited c) = 0 \<longleftrightarrow> c = 0"
  by (simp add: push_bit_eq_mult)

lemma exitcode_exited: "c < 256 \<Longrightarrow> exitcode_of (wait_status (Exited c)) = int c"
  by (simp only: exitcode_of_def wifexited_exited wexitstatus_exited if_True)

lemma exitcode_signaled:
  "0 < sig \<Longrightarrow> sig < 128 \<Longrightarrow> exitcode_of (wait_status (Signaled sig core)) = - 1"
  by (simp only: exitcode_of_def wifexited_signaled if_False)

lemma exitcode_launch: "exitcode_of (wait_status LaunchFailed) = - 1"
  by (simp only: exitcode_of_def wifexited_launch if_False)

lemma signaled_nonzero: "0 < sig \<Longrightarrow> wait_status (Signaled sig core) \<noteq> 0"
  by simp

section \<open>Members that run nothing, and the unreadable roster\<close>

text \<open>
  Claim C7. In pattern mode a member whose resolved path does not exist prints the notice
  and nothing else, calls neither \<^verbatim>\<open>system\<close> nor \<^verbatim>\<open>MPI_Abort\<close>, and returns 0.
\<close>

theorem missing_script_is_inert:
  assumes "strchr arg (CHR ''*'') = Some star"
      and "\<not> access_ok e (scriptfile_of arg star rank)"
  shows "rank_run e [arg] rank n inbox = Inr ([ScriptNotFound (scriptfile_of arg star rank)], Return 0)"
  using assms by (simp add: rank_run_def pattern_mode_def Let_def)

theorem missing_script_is_inert_witness:
  "rank_run \<lparr>access_ok = (\<lambda>_. False), system_status = (\<lambda>_. 0), fopen_r = (\<lambda>_. None)\<rparr>
            [''job_*.sh''] 2 4 [] = Inr ([ScriptNotFound ''job_2.sh''], Return 0)"
proof -
  let ?e = "\<lparr>access_ok = (\<lambda>_. False), system_status = (\<lambda>_. 0), fopen_r = (\<lambda>_. None)\<rparr>"
  have h: "strchr ''job_*.sh'' (CHR ''*'') = Some 4" by simp
  have a: "\<not> access_ok ?e (scriptfile_of ''job_*.sh'' 4 2)" by simp
  have v: "scriptfile_of ''job_*.sh'' 4 2 = ''job_2.sh''"
    by (simp add: scriptfile_of_def snprintf_def MAX_LINE_def decimal_digit digit_def)
  from missing_script_is_inert[OF h a, of 4 "[]"] v show ?thesis by simp
qed

text \<open>
  Claim C8. In roster mode a coordinator that cannot open the roster file reports it and
  calls \<^verbatim>\<open>MPI_Abort(MPI_COMM_WORLD, 1)\<close>, before any message is sent.
\<close>

theorem roster_unreadable_aborts:
  assumes "strchr arg (CHR ''*'') = None" and "fopen_r e arg = None"
  shows "rank_run e [arg] 0 n inbox = Inr ([FileNotFound arg], Abort 1)"
  using assms by (simp add: rank_run_def roster_mode_def)


theorem roster_unreadable_aborts_witness:
  "rank_run \<lparr>access_ok = (\<lambda>_. False), system_status = (\<lambda>_. 0), fopen_r = (\<lambda>_. None)\<rparr>
            [''cmdfile''] 0 4 [] = Inr ([FileNotFound ''cmdfile''], Abort 1)"
proof -
  let ?e = "\<lparr>access_ok = (\<lambda>_. False), system_status = (\<lambda>_. 0), fopen_r = (\<lambda>_. None)\<rparr>"
  have h: "strchr ''cmdfile'' (CHR ''*'') = None" by simp
  have f: "fopen_r ?e ''cmdfile'' = None" by simp
  from roster_unreadable_aborts[OF h f, of 4 "[]"] show ?thesis .
qed

section \<open>Roster mode: reading and dispatching\<close>

subsection \<open>The loop over the lines of the file\<close>

lemma parse_loop_Nil: "parse_loop [] st = Inr st"
  by (subst parse_loop.simps) (simp add: fgets_def)

lemma parse_loop_Cons:
  "parse_loop (c # cs) st =
     (case fgets_take (MAX_LINE - 1) (c # cs) of
        (chunk, rest) \<Rightarrow>
          if num_commands st < MAX_RANKS then parse_loop rest (store_line chunk st)
          else Inl (OutOfBounds (num_commands st)))"
  by (subst parse_loop.simps) (simp add: fgets_def)

lemma split_lines_Nil_iff: "split_lines fp = [] \<longleftrightarrow> fp = []"
  by (cases fp) (auto split: list.splits)

lemma concat_split_lines: "concat (split_lines fp) = fp"
  by (induction fp) (auto split: list.splits)

lemma split_lines_tail: "split_lines fp = l # ls \<Longrightarrow> split_lines (concat ls) = ls"
proof (induction fp arbitrary: l ls)
  case Nil
  then show ?case by simp
next
  case (Cons c cs)
  then show ?case
    by (auto split: if_splits list.splits simp: concat_split_lines)
qed

lemma fgets_take_line:
  "split_lines fp = l # ls \<Longrightarrow> length l \<le> n \<Longrightarrow> fgets_take n fp = (l, concat ls)"
proof (induction fp arbitrary: l ls n)
  case Nil
  then show ?case by simp
next
  case (Cons c cs)
  show ?case
  proof (cases "c = CHR 0x0A")
    case True
    with Cons.prems show ?thesis by (auto simp: concat_split_lines)
  next
    case False
    show ?thesis
    proof (cases "split_lines cs")
      case Nil
      with False Cons.prems show ?thesis by (auto simp: split_lines_Nil_iff)
    next
      case (Cons l' ls')
      with False Cons.prems have l: "l = c # l'" "ls = ls'" by auto
      with Cons.prems have "length l' \<le> n - 1" "n \<noteq> 0" by auto
      with Cons.IH[OF Cons] have "fgets_take (n - 1) cs = (l', concat ls')" by simp
      with False l \<open>n \<noteq> 0\<close> show ?thesis by simp
    qed
  qed
qed

lemma parse_loop_lines:
  "\<forall>l \<in> set (split_lines fp). length l < MAX_LINE \<Longrightarrow> parse_loop fp st = store_lines (split_lines fp) st"
proof (induction ls \<equiv> "split_lines fp" arbitrary: fp st)
  case Nil
  then have "fp = []" by (simp add: split_lines_Nil_iff[symmetric])
  then show ?case by (simp add: parse_loop_Nil)
next
  case (Cons l ls)
  from Cons.hyps(2) have sp: "split_lines fp = l # ls" by simp
  then obtain c cs where fp: "fp = c # cs" by (cases fp) auto
  from Cons.prems sp have "length l \<le> MAX_LINE - 1" by auto
  with sp have fg: "fgets_take (MAX_LINE - 1) fp = (l, concat ls)" by (rule fgets_take_line)
  have tl: "split_lines (concat ls) = ls" using sp by (rule split_lines_tail)
  have "parse_loop (concat ls) st' = store_lines (split_lines (concat ls)) st'" for st'
    using Cons.hyps(1)[of "concat ls" st'] tl Cons.prems sp by simp
  then show ?case
    using fg fp sp tl by (simp add: parse_loop_Cons)
qed

lemma store_lines_overflow:
  "ls \<noteq> [] \<Longrightarrow> num_commands st \<le> MAX_RANKS \<Longrightarrow>
   MAX_RANKS \<le> num_commands st + length (entries (butlast ls)) \<Longrightarrow>
   store_lines ls st = Inl (OutOfBounds MAX_RANKS)"
proof (induction ls arbitrary: st)
  case Nil
  then show ?case by simp
next
  case (Cons l ls)
  show ?case
  proof (cases "num_commands st < MAX_RANKS")
    case False
    with Cons.prems show ?thesis by simp
  next
    case True
    with Cons.prems have ne: "ls \<noteq> []" by (auto simp: entries_def)
    have n': "num_commands (store_line l st) = num_commands st + (if qualifies (trim l) then 1 else 0)"
      by (simp add: store_line_def Let_def)
    have "length (entries (butlast (l # ls))) = (if qualifies (trim l) then 1 else 0) + length (entries (butlast ls))"
      using ne by (simp add: entries_def)
    with Cons.prems n' True have "num_commands (store_line l st) \<le> MAX_RANKS"
      "MAX_RANKS \<le> num_commands (store_line l st) + length (entries (butlast ls))"
      by auto
    with Cons.IH[OF ne] True show ?thesis by simp
  qed
qed

lemma store_lines_ok:
  "num_commands st + length (entries (butlast ls)) < MAX_RANKS \<Longrightarrow>
   store_lines ls st = Inr (foldl (\<lambda>s l. store_line l s) st ls)"
proof (induction ls arbitrary: st)
  case Nil
  then show ?case by simp
next
  case (Cons l ls)
  then have lt: "num_commands st < MAX_RANKS" by simp
  show ?case
  proof (cases "ls = []")
    case True
    with lt show ?thesis by simp
  next
    case False
    have n': "num_commands (store_line l st) = num_commands st + (if qualifies (trim l) then 1 else 0)"
      by (simp add: store_line_def Let_def)
    have "length (entries (butlast (l # ls))) = (if qualifies (trim l) then 1 else 0) + length (entries (butlast ls))"
      using False by (simp add: entries_def)
    with Cons.prems n' have "num_commands (store_line l st) + length (entries (butlast ls)) < MAX_RANKS"
      by auto
    with Cons.IH lt show ?thesis by simp
  qed
qed


lemma store_line_num:
  "num_commands (store_line l st) = num_commands st + (if qualifies (trim l) then 1 else 0)"
  by (simp add: store_line_def Let_def)

lemma store_line_rows: "commands (store_line l st) = (commands st)(num_commands st := trim l)"
  by (simp add: store_line_def Let_def)

lemma entries_Nil [simp]: "entries [] = []"
  by (simp add: entries_def)

lemma entries_snoc: "entries (ls @ [l]) = entries ls @ (if qualifies (trim l) then [trim l] else [])"
  by (simp add: entries_def)

lemma store_all_num: "num_commands (store_all st ls) = num_commands st + length (entries ls)"
  by (induction ls rule: rev_induct) (simp_all add: entries_def store_line_num)

lemma store_all_below: "i < num_commands st \<Longrightarrow> commands (store_all st ls) i = commands st i"
  by (induction ls rule: rev_induct) (simp_all add: store_line_rows store_all_num)

lemma store_all_above:
  "num_commands st + length (entries ls) < i \<Longrightarrow> commands (store_all st ls) i = commands st i"
  by (induction ls rule: rev_induct)
     (simp_all add: store_line_rows store_all_num entries_snoc split: if_splits)

lemma store_all_entries:
  "j < length (entries ls) \<Longrightarrow> commands (store_all st ls) (num_commands st + j) = entries ls ! j"
  by (induction ls rule: rev_induct)
     (auto simp: store_line_rows store_all_num entries_snoc nth_append split: if_splits)

lemma store_all_next:
  "commands (store_all st ls) (num_commands st + length (entries ls)) =
     (if ls = [] \<or> qualifies (trim (last ls)) then commands st (num_commands st + length (entries ls))
      else trim (last ls))"
proof (cases ls rule: rev_cases)
  case Nil
  then show ?thesis by simp
next
  case (snoc ls' l)
  then show ?thesis
    by (simp add: store_line_rows store_all_num entries_snoc store_all_above)
qed


lemma send_loop_ok:
  "n \<le> MAX_RANKS \<Longrightarrow> send_loop st i n = Inr (map (\<lambda>j. (j, commands st j)) [i..<n])"
proof (induction st i n rule: send_loop.induct)
  case (1 st i n)
  show ?case
  proof (cases "i < n")
    case True
    with 1 show ?thesis
      by (subst send_loop.simps) (simp add: upt_conv_Cons)
  next
    case False
    then show ?thesis by (subst send_loop.simps) simp
  qed
qed

lemma send_loop_overflow:
  "i \<le> MAX_RANKS \<Longrightarrow> MAX_RANKS < n \<Longrightarrow> send_loop st i n = Inl (OutOfBounds MAX_RANKS)"
proof (induction st i n rule: send_loop.induct)
  case (1 st i n)
  show ?case
  proof (cases "i < MAX_RANKS")
    case True
    with 1 show ?thesis by (subst send_loop.simps) simp
  next
    case False
    with 1 show ?thesis by (subst send_loop.simps) simp
  qed
qed

lemma send_loop_result:
  "send_loop st i n = Inr msgs \<Longrightarrow> msgs = map (\<lambda>j. (j, commands st j)) [i..<n]"
proof (induction st i n arbitrary: msgs rule: send_loop.induct)
  case (1 st i n)
  show ?case
  proof (cases "i < n")
    case True
    with "1.prems" have lt: "i < MAX_RANKS"
      by (subst (asm) send_loop.simps) (simp split: if_splits)
    with True "1.prems" obtain ms where ms: "send_loop st (i + 1) n = Inr ms" "msgs = (i, commands st i) # ms"
      by (subst (asm) send_loop.simps) (auto split: sum.splits)
    with "1.IH"[OF True lt] True show ?thesis by (simp add: upt_conv_Cons)
  next
    case False
    with "1.prems" show ?thesis by (subst (asm) send_loop.simps) simp
  qed
qed

lemma parse_loop_bound:
  "num_commands st \<le> MAX_RANKS \<Longrightarrow>
   (case parse_loop fp st of
      Inr st' \<Rightarrow> num_commands st' \<le> MAX_RANKS
    | Inl err \<Rightarrow> err = OutOfBounds MAX_RANKS)"
proof (induction fp st rule: parse_loop.induct)
  case (1 fp st)
  show ?case
  proof (cases "fgets MAX_LINE fp")
    case None
    with "1.prems" show ?thesis by (subst parse_loop.simps) simp
  next
    case (Some x)
    obtain chunk rest where x: "x = (chunk, rest)" by (cases x)
    show ?thesis
    proof (cases "num_commands st < MAX_RANKS")
      case True
      then have "num_commands (store_line chunk st) \<le> MAX_RANKS"
        by (simp add: store_line_num)
      with "1.IH"[OF Some x[symmetric] True] Some x True show ?thesis
        by (subst parse_loop.simps) simp
    next
      case False
      with "1.prems" Some x show ?thesis by (subst parse_loop.simps) simp
    qed
  qed
qed

subsection \<open>Valid lines and counted rows\<close>

lemma cstr_id: "CHR 0x00 \<notin> set l \<Longrightarrow> cstr l = l"
  by (auto simp: cstr_def takeWhile_eq_all_conv)

lemma trim_strip: "CHR 0x00 \<notin> set l \<Longrightarrow> trim l = strip l"
  by (simp add: trim_eq strip_def cstr_id)

lemma strip_Nil_iff: "strip l = [] \<longleftrightarrow> is_blank l"
  by (simp add: strip_def is_blank_def dropWhile_eq_Nil_conv dropWhile_all_iff list_all_iff)

lemma hd_strip: "strip l \<noteq> [] \<Longrightarrow> hd (strip l) = hd (dropWhile is_ws l)"
proof -
  assume ne: "strip l \<noteq> []"
  have "dropWhile is_ws l = strip l @ rev (takeWhile is_ws (rev (dropWhile is_ws l)))"
    using rev_dropWhile_decomp[of "dropWhile is_ws l" is_ws] by (simp add: strip_def)
  with ne show ?thesis by (metis hd_append2)
qed

lemma qualifies_iff: "qualifies s \<longleftrightarrow> s \<noteq> [] \<and> hd s \<noteq> CHR ''#''"
  by (cases s) (simp_all add: qualifies_def)

lemma is_comment_iff: "is_comment l \<longleftrightarrow> dropWhile is_ws l \<noteq> [] \<and> hd (dropWhile is_ws l) = CHR ''#''"
  by (cases "dropWhile is_ws l") (simp_all add: is_comment_def del: dropWhile_eq_Nil_conv)

lemma blank_dropWhile: "is_blank l \<longleftrightarrow> dropWhile is_ws l = []"
  by (simp add: is_blank_def dropWhile_eq_Nil_conv list_all_iff)

lemma qualifies_strip: "qualifies (strip l) \<longleftrightarrow> \<not> is_blank l \<and> \<not> is_comment l"
proof (cases "is_blank l")
  case True
  then have "dropWhile is_ws l = []" by (simp add: blank_dropWhile)
  then have "\<not> is_comment l" by (simp add: is_comment_iff)
  with True show ?thesis by (simp add: qualifies_iff strip_Nil_iff)
next
  case False
  then have "strip l \<noteq> []" by (simp add: strip_Nil_iff)
  with False show ?thesis
    by (simp add: qualifies_iff hd_strip is_comment_iff blank_dropWhile)
qed

lemma split_lines_chars: "l \<in> set (split_lines fp) \<Longrightarrow> set l \<subseteq> set fp"
proof -
  assume "l \<in> set (split_lines fp)"
  then have "set l \<subseteq> set (concat (split_lines fp))" by auto
  then show ?thesis by (simp add: concat_split_lines)
qed

lemma entries_valid_gen:
  assumes "\<forall>l \<in> set ls. CHR 0x00 \<notin> set l"
  shows "entries ls = map strip (filter (\<lambda>l. \<not> is_blank l \<and> \<not> is_comment l) ls)"
  using assms by (induction ls) (auto simp: entries_def trim_strip qualifies_strip)

lemma entries_valid: "CHR 0x00 \<notin> set fp \<Longrightarrow> entries (split_lines fp) = valid_lines fp"
  unfolding valid_lines_def
  by (rule entries_valid_gen) (use split_lines_chars in blast)

lemma fgets_take_replicate:
  "c \<noteq> CHR 0x0A \<Longrightarrow> fgets_take m (replicate m c @ rest) = (replicate m c, rest)"
proof (induction m)
  case 0
  then show ?case by (cases rest) simp_all
next
  case (Suc m)
  then show ?case by simp
qed

lemma parse_loop_step:
  "fp \<noteq> [] \<Longrightarrow> fgets_take (MAX_LINE - 1) fp = (chunk, rest) \<Longrightarrow> num_commands st < MAX_RANKS \<Longrightarrow>
   parse_loop fp st = parse_loop rest (store_line chunk st)"
  by (subst parse_loop.simps) (simp add: fgets_def)

lemma strip_replicate: "\<not> is_ws c \<Longrightarrow> strip (replicate m c) = replicate m c"
  by (simp add: strip_def dropWhile_replicate)

lemma split_lines_one: "CHR 0x0A \<notin> set s \<Longrightarrow> s \<noteq> [] \<Longrightarrow> split_lines s = [s]"
proof (induction s)
  case Nil
  then show ?case by simp
next
  case (Cons c s)
  then show ?case by (cases "s = []") (auto split: list.splits)
qed

lemmas roster_eval =
  rank_run_def roster_mode_def parse_loop_Nil parse_loop_Cons
  MAX_LINE_def MAX_RANKS_def roster_init_def store_line_def trim_def cstr_def is_ws_def
  trim_tail.simps qualifies_def send_loop.simps mycmd0_def run_mycmd_def run_system_def Let_def

lemma split_lines_line:
  "CHR 0x0A \<notin> set l \<Longrightarrow> split_lines (l @ CHR 0x0A # rest) = (l @ [CHR 0x0A]) # split_lines rest"
  by (induction l) auto

lemma split_lines_replicate:
  "CHR 0x0A \<notin> set l \<Longrightarrow>
   split_lines (concat (replicate m (l @ [CHR 0x0A])) @ rest)
     = replicate m (l @ [CHR 0x0A]) @ split_lines rest"
  by (induction m) (simp_all add: split_lines_line)

lemma a_lines_overflow:
  assumes "c \<noteq> CHR 0x0A"
  shows "parse_loop (concat (replicate MAX_RANKS ''a\<newline>'') @ [c, CHR 0x0A]) roster_init
           = Inl (OutOfBounds MAX_RANKS)"
proof -
  let ?fp = "concat (replicate MAX_RANKS ''a\<newline>'') @ [c, CHR 0x0A]"
  have sp: "split_lines ?fp = replicate MAX_RANKS ''a\<newline>'' @ [[c, CHR 0x0A]]"
    using split_lines_replicate[of "''a''" MAX_RANKS "[c, CHR 0x0A]"] assms by simp
  have t: "trim ''a\<newline>'' = ''a''"
    by (simp add: trim_def cstr_def is_ws_def trim_tail.simps Let_def)
  have e: "entries (replicate MAX_RANKS ''a\<newline>'') = replicate MAX_RANKS ''a''"
    by (simp add: entries_def t qualifies_def)
  have "\<forall>l \<in> set (split_lines ?fp). length l < MAX_LINE"
    by (auto simp: sp MAX_LINE_def)
  then have "parse_loop ?fp roster_init = store_lines (split_lines ?fp) roster_init"
    by (rule parse_loop_lines)
  also have "\<dots> = Inl (OutOfBounds MAX_RANKS)"
    by (rule store_lines_overflow) (simp_all add: sp e roster_init_def)
  finally show ?thesis .
qed

lemma coordinator_run:
  assumes "strchr arg (CHR ''*'') = None" "fopen_r e arg = Some fp"
    and "parse_loop fp roster_init = Inr st" "n \<le> MAX_RANKS"
  shows "rank_run e [arg] 0 n inbox =
           Inr ((if n < num_commands st then [ExtraIgnored (num_commands st) n] else [])
                @ map (\<lambda>i. Send i (commands st i)) [1..<n] @ fst (run_mycmd e 0 (mycmd0 st)),
                snd (run_mycmd e 0 (mycmd0 st)))"
  using assms send_loop_ok[OF assms(4), of st 1]
  by (simp add: rank_run_def roster_mode_def comp_def split: prod.splits)

lemma coordinator_overflow:
  assumes "strchr arg (CHR ''*'') = None" "fopen_r e arg = Some fp"
    and "parse_loop fp roster_init = Inr st" "MAX_RANKS < n"
  shows "rank_run e [arg] 0 n inbox = Inl (OutOfBounds MAX_RANKS)"
proof -
  have "send_loop st 1 n = Inl (OutOfBounds MAX_RANKS)"
    using assms(4) by (intro send_loop_overflow) (simp_all add: MAX_RANKS_def)
  with assms show ?thesis by (simp add: rank_run_def roster_mode_def)
qed

lemma member_run:
  assumes "strchr arg (CHR ''*'') = None" "0 < rank"
  shows "rank_run e [arg] rank n inbox =
           Inr (Recv inbox # fst (run_mycmd e rank inbox), snd (run_mycmd e rank inbox))"
  using assms by (simp add: rank_run_def roster_mode_def split: prod.splits)

lemma parse_loop_valid:
  assumes nul: "CHR 0x00 \<notin> set fp"
    and len: "\<forall>l \<in> set (split_lines fp). length l < MAX_LINE"
    and room: "length (filter (\<lambda>l. \<not> is_blank l \<and> \<not> is_comment l) (butlast (split_lines fp)))
                 < MAX_RANKS"
  shows "\<exists>st. parse_loop fp roster_init = Inr st
           \<and> num_commands st = length (valid_lines fp)
           \<and> (\<forall>i < length (valid_lines fp). commands st i = valid_lines fp ! i)
           \<and> (\<forall>i. length (valid_lines fp) < i \<longrightarrow> commands st i = [])
           \<and> (split_lines fp = [] \<or> \<not> is_comment (last (split_lines fp))
                \<longrightarrow> commands st (length (valid_lines fp)) = [])"
proof -
  let ?ls = "split_lines fp"
  let ?k = "length (valid_lines fp)"
  define st where "st = store_all roster_init ?ls"
  have nul_ls: "\<forall>l \<in> set ?ls. CHR 0x00 \<notin> set l"
    using nul split_lines_chars by blast
  then have "\<forall>l \<in> set (butlast ?ls). CHR 0x00 \<notin> set l"
    by (meson in_set_butlastD)
  then have "length (entries (butlast ?ls)) < MAX_RANKS"
    using room by (simp add: entries_valid_gen)
  then have "store_lines ?ls roster_init = Inr st"
    unfolding st_def by (intro store_lines_ok) (simp add: roster_init_def)
  with len have parse: "parse_loop fp roster_init = Inr st"
    by (simp add: parse_loop_lines)
  have ev: "entries ?ls = valid_lines fp" using nul by (rule entries_valid)
  have num: "num_commands st = ?k"
    by (simp add: st_def store_all_num ev roster_init_def)
  have rows_lt: "commands st i = valid_lines fp ! i" if "i < ?k" for i
    using store_all_entries[of i ?ls roster_init] that
    by (simp add: st_def ev roster_init_def)
  have rows_gt: "commands st i = []" if "?k < i" for i
    using store_all_above[of roster_init ?ls i] that
    by (simp add: st_def ev roster_init_def)
  have row_k: "commands st ?k = []" if "\<not> is_comment (last ?ls)" "?ls \<noteq> []"
  proof (cases "qualifies (trim (last ?ls))")
    case True
    with store_all_next[of roster_init ?ls] show ?thesis
      by (simp add: st_def ev roster_init_def)
  next
    case False
    from that(2) nul_ls have t: "trim (last ?ls) = strip (last ?ls)"
      by (simp add: trim_strip)
    with False that(1) have "strip (last ?ls) = []"
      by (simp add: qualifies_strip strip_Nil_iff)
    with store_all_next[of roster_init ?ls] False t that(2) show ?thesis
      by (simp add: st_def ev roster_init_def)
  qed
  have row_k0: "commands st ?k = []" if "?ls = []"
    using store_all_next[of roster_init ?ls] that by (simp add: st_def ev roster_init_def)
  from row_k row_k0 have "?ls = [] \<or> \<not> is_comment (last ?ls) \<longrightarrow> commands st ?k = []"
    by blast
  with parse num rows_lt rows_gt show ?thesis by blast
qed

lemma extra_ignored:
  assumes n: "1 \<le> n" "n < length (valid_lines fp)"
    and nul: "CHR 0x00 \<notin> set fp"
    and len: "\<forall>l \<in> set (split_lines fp). length l < MAX_LINE"
    and room: "length (filter (\<lambda>l. \<not> is_blank l \<and> \<not> is_comment l) (butlast (split_lines fp)))
                 < MAX_RANKS"
    and a: "strchr arg (CHR ''*'') = None" and f: "fopen_r e arg = Some fp"
  shows "rank_run e [arg] 0 n inbox =
           Inr (ExtraIgnored (length (valid_lines fp)) n
                # map (\<lambda>i. Send i (valid_lines fp ! i)) [1..<n]
                @ fst (run_mycmd e 0 (valid_lines fp ! 0)),
                snd (run_mycmd e 0 (valid_lines fp ! 0)))"
proof -
  let ?k = "length (valid_lines fp)"
  from parse_loop_valid[OF nul len room] obtain st where
    parse: "parse_loop fp roster_init = Inr st" and num: "num_commands st = ?k"
    and rows: "\<forall>i < ?k. commands st i = valid_lines fp ! i"
    by blast
  have "num_commands st \<le> MAX_RANKS"
    using parse_loop_bound[of roster_init fp] parse by (simp add: roster_init_def)
  with num n have nm: "n \<le> MAX_RANKS" by simp
  from n have ne: "valid_lines fp \<noteq> []" by auto
  then have m0: "mycmd0 st = valid_lines fp ! 0"
    using rows by (simp add: mycmd0_def num)
  have sends: "map (\<lambda>i. Send i (commands st i)) [Suc 0..<n]
                 = map (\<lambda>i. Send i (valid_lines fp ! i)) [Suc 0..<n]"
    using rows n by (intro map_cong) auto
  from coordinator_run[OF a f parse nm, of inbox] n show ?thesis
    by (simp add: num m0 sends)
qed

subsection \<open>The assignment of every rank\<close>

text \<open>
  Claim C1, as amended. In roster mode, for a group of \<open>n\<close> members with
  \<open>1 \<le> n \<le> MAX_RANKS\<close> and a roster file without NUL bytes whose lines, newline
  included, are shorter than \<open>MAX_LINE\<close>, with \<open>k \<le> n\<close> valid lines of which fewer than
  \<open>MAX_RANKS\<close> come before the last line of the file, there is one assignment \<open>as ! r\<close>
  for every rank \<open>r < n\<close> such that: the coordinator sends exactly one message to every
  rank \<open>i\<close> from 1 to \<open>n - 1\<close>, in this order, and the message for rank \<open>i\<close> is \<open>as ! i\<close>; it
  then runs \<open>as ! 0\<close> itself, taken from its own memory; every other member runs the
  message it receives; valid line \<open>i\<close>, stripped, is \<open>as ! i\<close> for every \<open>i < k\<close>, in file
  order; \<open>as ! r\<close> is empty for every \<open>r\<close> with \<open>k < r < n\<close>; and \<open>as ! k\<close> is empty when the
  file has no valid line or its last line is not a comment.
\<close>

theorem roster_dispatch:
  assumes n: "1 \<le> n" "n \<le> MAX_RANKS"
    and nul: "CHR 0x00 \<notin> set fp"
    and len: "\<forall>l \<in> set (split_lines fp). length l < MAX_LINE"
    and k: "length (valid_lines fp) \<le> n"
    and room: "length (filter (\<lambda>l. \<not> is_blank l \<and> \<not> is_comment l) (butlast (split_lines fp)))
                 < MAX_RANKS"
    and a: "strchr arg (CHR ''*'') = None" and f: "fopen_r e arg = Some fp"
  shows "\<exists>as. length as = n
           \<and> rank_run e [arg] 0 n inbox =
               Inr (map (\<lambda>i. Send i (as ! i)) [1..<n] @ fst (run_mycmd e 0 (as ! 0)),
                    snd (run_mycmd e 0 (as ! 0)))
           \<and> (\<forall>r m. 0 < r \<longrightarrow>
                 rank_run e [arg] r n m
                   = Inr (Recv m # fst (run_mycmd e r m), snd (run_mycmd e r m)))
           \<and> (\<forall>i < length (valid_lines fp). as ! i = valid_lines fp ! i)
           \<and> (\<forall>r. length (valid_lines fp) < r \<and> r < n \<longrightarrow> as ! r = [])
           \<and> (length (valid_lines fp) < n
                \<and> (valid_lines fp = [] \<or> \<not> is_comment (last (split_lines fp)))
              \<longrightarrow> as ! length (valid_lines fp) = [])"
proof -
  let ?ls = "split_lines fp"
  let ?k = "length (valid_lines fp)"
  from parse_loop_valid[OF nul len room] obtain st where
    parse: "parse_loop fp roster_init = Inr st" and num: "num_commands st = ?k"
    and rows_lt: "\<forall>i < ?k. commands st i = valid_lines fp ! i"
    and rows_gt: "\<forall>i. ?k < i \<longrightarrow> commands st i = []"
    and row_k: "?ls = [] \<or> \<not> is_comment (last ?ls) \<longrightarrow> commands st ?k = []"
    by blast
  define as where "as = mycmd0 st # map (commands st) [1..<n]"
  have la: "length as = n" using n(1) by (simp add: as_def)
  have nth: "as ! r = (if r = 0 then mycmd0 st else commands st r)" if "r < n" for r
    using that by (cases r) (simp_all add: as_def)
  have sends: "map (\<lambda>i. Send i (commands st i)) [Suc 0..<n] = map (\<lambda>i. Send i (as ! i)) [Suc 0..<n]"
    by (intro map_cong) (auto simp: nth)
  have a0: "as ! 0 = mycmd0 st" by (simp add: as_def)
  have run0: "rank_run e [arg] 0 n inbox =
               Inr (map (\<lambda>i. Send i (as ! i)) [1..<n] @ fst (run_mycmd e 0 (as ! 0)),
                    snd (run_mycmd e 0 (as ! 0)))"
    using coordinator_run[OF a f parse n(2), of inbox] k
    by (simp add: num sends a0)
  have runr: "\<forall>r m. 0 < r \<longrightarrow>
                 rank_run e [arg] r n m
                   = Inr (Recv m # fst (run_mycmd e r m), snd (run_mycmd e r m))"
    using member_run[OF a] by blast
  have m0: "mycmd0 st = (if 0 < ?k then valid_lines fp ! 0 else [])"
    using rows_lt by (simp add: mycmd0_def num)
  have c1: "\<forall>i < ?k. as ! i = valid_lines fp ! i"
  proof (intro allI impI)
    fix i assume i: "i < ?k"
    with k have "i < n" by simp
    then have "as ! i = (if i = 0 then mycmd0 st else commands st i)" by (rule nth)
    moreover from i have "valid_lines fp \<noteq> []" by auto
    then have "mycmd0 st = valid_lines fp ! 0" by (simp add: m0)
    ultimately show "as ! i = valid_lines fp ! i"
      using i rows_lt by simp
  qed
  have c2: "\<forall>r. ?k < r \<and> r < n \<longrightarrow> as ! r = []"
    using rows_gt by (simp add: nth)
  have c3: "?k < n \<and> (valid_lines fp = [] \<or> \<not> is_comment (last ?ls)) \<longrightarrow> as ! ?k = []"
  proof
    assume h: "?k < n \<and> (valid_lines fp = [] \<or> \<not> is_comment (last ?ls))"
    show "as ! ?k = []"
    proof (cases "valid_lines fp = []")
      case True
      with h show ?thesis by (simp add: nth m0)
    next
      case False
      with h row_k show ?thesis by (simp add: nth)
    qed
  qed
  from la run0 runr c1 c2 c3 show ?thesis by blast
qed

theorem roster_dispatch_witness:
  "\<exists>as. length as = 4
        \<and> rank_run (env_with_file ''echo A\<newline># comment\<newline>\<newline>echo B\<newline>'') [''cmdfile''] 0 4 []
            = Inr ([Send 1 (as ! 1), Send 2 (as ! 2), Send 3 (as ! 3),
                    ExecutingCommand 0 ''echo A'', System ''echo A''], Return 0)
        \<and> as ! 0 = ''echo A'' \<and> as ! 1 = ''echo B'' \<and> as ! 2 = [] \<and> as ! 3 = []"
proof -
  let ?fp = "''echo A\<newline># comment\<newline>\<newline>echo B\<newline>''"
  let ?e = "env_with_file ?fp"
  have sp: "split_lines ?fp = [''echo A\<newline>'', ''# comment\<newline>'', ''\<newline>'', ''echo B\<newline>'']"
    by simp
  have v: "valid_lines ?fp = [''echo A'', ''echo B'']"
    by (simp add: valid_lines_def is_blank_def is_comment_def strip_def is_ws_def)
  have h1: "1 \<le> (4::nat)" "4 \<le> MAX_RANKS" by (simp_all add: MAX_RANKS_def)
  have h2: "CHR 0x00 \<notin> set ?fp" by simp
  have h3: "\<forall>l \<in> set (split_lines ?fp). length l < MAX_LINE"
    by (simp add: MAX_LINE_def)
  have h4: "length (valid_lines ?fp) \<le> 4" by (simp add: v)
  have h5: "length (filter (\<lambda>l. \<not> is_blank l \<and> \<not> is_comment l) (butlast (split_lines ?fp)))
              < MAX_RANKS"
    by (simp add: MAX_RANKS_def)
  have h6: "strchr ''cmdfile'' (CHR ''*'') = None" by simp
  have h7: "fopen_r ?e ''cmdfile'' = Some ?fp" by (simp add: env_with_file_def)
  have nc: "\<not> is_comment (last (split_lines ?fp))"
    by (simp add: is_comment_def is_ws_def)
  from roster_dispatch[OF h1 h2 h3 h4 h5 h6 h7, of "[]"] obtain as where
    as: "length as = 4"
        "rank_run ?e [''cmdfile''] 0 4 [] =
           Inr (map (\<lambda>i. Send i (as ! i)) [1..<4] @ fst (run_mycmd ?e 0 (as ! 0)),
                snd (run_mycmd ?e 0 (as ! 0)))"
        "\<forall>i < length (valid_lines ?fp). as ! i = valid_lines ?fp ! i"
        "\<forall>r. length (valid_lines ?fp) < r \<and> r < 4 \<longrightarrow> as ! r = []"
        "length (valid_lines ?fp) < 4
           \<and> (valid_lines ?fp = [] \<or> \<not> is_comment (last (split_lines ?fp)))
         \<longrightarrow> as ! length (valid_lines ?fp) = []"
    by blast
  from as(3) have a0: "as ! 0 = ''echo A''" and a1: "as ! 1 = ''echo B''" by (simp_all add: v)
  from as(4) have a3: "as ! 3 = []" by (simp add: v)
  from as(5) nc have a2: "as ! 2 = []" by (simp add: v numeral_2_eq_2)
  have u: "[Suc 0..<4] = [Suc 0, 2, 3]" by (simp add: upt_conv_Cons)
  have r: "run_mycmd ?e 0 ''echo A'' = ([ExecutingCommand 0 ''echo A'', System ''echo A''], Return 0)"
    by (simp add: run_mycmd_def run_system_def env_with_file_def)
  from as(2) have "rank_run ?e [''cmdfile''] 0 4 []
            = Inr ([Send 1 (as ! 1), Send 2 (as ! 2), Send 3 (as ! 3),
                    ExecutingCommand 0 ''echo A'', System ''echo A''], Return 0)"
    by (simp add: u a0 r)
  with as(1) a0 a1 a2 a3 show ?thesis by blast
qed

text \<open>
  Claim C1 as stated fails at the limits of the buffers and of C strings. A single line
  of 5000 characters is read in two pieces, so that in a group of two the coordinator
  runs its first 4999 characters and sends the last one to rank 1 instead of nothing.
  In a group of 5001 the message for rank 5000 is taken from row 5000, past the end of
  the array. A line with a NUL byte ends, as a C string, at that byte: of the line
  \<^verbatim>\<open>a\<close>, NUL, \<^verbatim>\<open>b\<close> the coordinator runs \<^verbatim>\<open>a\<close>.
\<close>

theorem roster_dispatch_limits:
  "valid_lines (replicate 5000 (CHR ''a'')) = [replicate 5000 (CHR ''a'')]
   \<and> rank_run (env_with_file (replicate 5000 (CHR ''a''))) [''cmdfile''] 0 2 []
       = Inr ([Send 1 ''a'', ExecutingCommand 0 (replicate 4999 (CHR ''a'')),
               System (replicate 4999 (CHR ''a''))], Return 0)
   \<and> valid_lines [] = []
   \<and> rank_run (env_with_file []) [''cmdfile''] 0 5001 [] = Inl (OutOfBounds 5000)
   \<and> valid_lines [CHR ''a'', CHR 0x00, CHR ''b'', CHR 0x0A] = [[CHR ''a'', CHR 0x00, CHR ''b'']]
   \<and> rank_run (env_with_file [CHR ''a'', CHR 0x00, CHR ''b'', CHR 0x0A]) [''cmdfile''] 0 1 []
       = Inr ([ExecutingCommand 0 ''a'', System ''a''], Return 0)"
proof (intro conjI)
  let ?a = "CHR ''a''"
  have ws: "\<not> is_ws ?a" by (simp add: is_ws_def)
  have sp: "split_lines (replicate 5000 ?a) = [replicate 5000 ?a]"
    by (rule split_lines_one) simp_all
  have nb: "\<not> is_blank (replicate 5000 ?a)"
    using ws by (simp add: is_blank_def list_all_iff)
  have nc: "\<not> is_comment (replicate 5000 ?a)"
    using ws by (simp add: is_comment_iff dropWhile_replicate)
  show "valid_lines (replicate 5000 ?a) = [replicate 5000 ?a]"
    using ws by (simp add: valid_lines_def sp nb nc strip_replicate)
  have "replicate (Suc 4999) ?a = replicate 4999 ?a @ [?a]"
    by (simp only: replicate_Suc replicate_append_same)
  moreover have "Suc 4999 = 5000" by simp
  ultimately have r: "replicate 5000 ?a = replicate 4999 ?a @ [?a]"
    by (simp only:)
  have t: "trim (replicate 4999 ?a) = replicate 4999 ?a"
    using ws by (simp add: trim_strip strip_replicate)
  have q: "qualifies (replicate 4999 ?a)"
    by (simp add: qualifies_iff)
  define st1 where "st1 = store_line (replicate 4999 ?a) roster_init"
  have n1: "num_commands st1 = 1" and c1: "commands st1 0 = replicate 4999 ?a"
    by (simp_all add: st1_def store_line_num store_line_rows t q roster_init_def)
  define st2 where "st2 = store_line ''a'' st1"
  have t2: "trim ''a'' = ''a''"
    by (simp add: trim_def cstr_def is_ws_def trim_tail.simps Let_def)
  have n2: "num_commands st2 = 2" and c2: "commands st2 0 = replicate 4999 ?a" "commands st2 (Suc 0) = ''a''"
    by (simp_all add: st2_def store_line_num store_line_rows t2 n1 c1 qualifies_def)
  have ml: "MAX_LINE - 1 = 4999" by (simp add: MAX_LINE_def)
  have "fgets_take 4999 (replicate 4999 ?a @ ''a'') = (replicate 4999 ?a, ''a'')"
    by (rule fgets_take_replicate) simp
  then have f: "fgets_take (MAX_LINE - 1) (replicate 5000 ?a) = (replicate 4999 ?a, ''a'')"
    by (simp only: r ml)
  have "parse_loop (replicate 5000 ?a) roster_init = parse_loop ''a'' st1"
    unfolding st1_def using _ f
    by (rule parse_loop_step) (simp_all add: MAX_RANKS_def roster_init_def)
  also have "\<dots> = parse_loop [] st2"
    unfolding st2_def
    by (rule parse_loop_step) (simp_all add: MAX_LINE_def MAX_RANKS_def n1)
  finally have p: "parse_loop (replicate 5000 ?a) roster_init = Inr st2"
    by (simp add: parse_loop_Nil)
  have ne: "replicate 4999 ?a \<noteq> []" by simp
  have h: "strchr ''cmdfile'' (CHR ''*'') = None" by simp
  have fo: "fopen_r (env_with_file fp) ''cmdfile'' = Some fp" for fp
    by (simp add: env_with_file_def)
  have m: "mycmd0 st2 = replicate 4999 ?a" by (simp add: mycmd0_def n2 c2)
  have rm: "run_mycmd (env_with_file fp) 0 (replicate 4999 ?a)
              = ([ExecutingCommand 0 (replicate 4999 ?a), System (replicate 4999 ?a)], Return 0)" for fp
    using ne by (simp add: run_mycmd_def run_system_def env_with_file_def)
  have two: "2 \<le> MAX_RANKS" by (simp add: MAX_RANKS_def)
  show "rank_run (env_with_file (replicate 5000 ?a)) [''cmdfile''] 0 2 []
       = Inr ([Send 1 ''a'', ExecutingCommand 0 (replicate 4999 ?a), System (replicate 4999 ?a)], Return 0)"
    using coordinator_run[OF h fo p two, of "[]"]
    by (simp add: n2 m rm c2 upt_conv_Cons)
  show "valid_lines [] = []" by (simp add: valid_lines_def)
  have "rank_run (env_with_file []) [''cmdfile''] 0 5001 [] = Inl (OutOfBounds MAX_RANKS)"
    by (rule coordinator_overflow[OF h fo]) (simp_all add: parse_loop_Nil MAX_RANKS_def)
  then show "rank_run (env_with_file []) [''cmdfile''] 0 5001 [] = Inl (OutOfBounds 5000)"
    by (simp add: MAX_RANKS_def)
  show "valid_lines [CHR ''a'', CHR 0x00, CHR ''b'', CHR 0x0A] = [[CHR ''a'', CHR 0x00, CHR ''b'']]"
    by (simp add: valid_lines_def is_blank_def is_comment_def strip_def is_ws_def)
  show "rank_run (env_with_file [CHR ''a'', CHR 0x00, CHR ''b'', CHR 0x0A]) [''cmdfile''] 0 1 []
       = Inr ([ExecutingCommand 0 ''a'', System ''a''], Return 0)"
    by (simp add: roster_eval env_with_file_def)
qed

subsection \<open>Comment lines\<close>

text \<open>
  Claim C2 says that a comment line is never the assignment of any rank and is never
  executed, also when it is the last line of the file. Evaluation of the program on
  the file of the two lines \<^verbatim>\<open>echo A\<close> and \<^verbatim>\<open># note\<close> in a group of two: the comment is
  read into row 1, is not counted, and no later read overwrites the row; the
  coordinator sends it to rank 1, which hands it to \<^verbatim>\<open>system\<close>.
\<close>

theorem comment_last_line_dispatched:
  "rank_run (env_with_file ''echo A\<newline># note\<newline>'') [''cmdfile''] 0 2 []
     = Inr ([Send 1 ''# note'', ExecutingCommand 0 ''echo A'', System ''echo A''], Return 0)
   \<and> rank_run (env_with_file ''echo A\<newline># note\<newline>'') [''cmdfile''] 1 2 ''# note''
     = Inr ([Recv ''# note'', ExecutingCommand 1 ''# note'', System ''# note''], Return 0)"
  by (simp add: roster_eval env_with_file_def)

subsection \<open>Where the parse stops\<close>


lemma chunks_Nil: "chunks [] = []"
  by (subst chunks.simps) (simp add: fgets_def)

lemma chunks_Cons:
  "chunks (c # cs) =
     (case fgets_take (MAX_LINE - 1) (c # cs) of (chunk, rest) \<Rightarrow> chunk # chunks rest)"
  by (subst chunks.simps) (simp add: fgets_def)

lemma parse_loop_chunks: "parse_loop fp st = store_lines (chunks fp) st"
proof (induction fp st rule: parse_loop.induct)
  case (1 fp st)
  show ?case
  proof (cases "fgets MAX_LINE fp")
    case None
    then show ?thesis
      by (subst parse_loop.simps, subst chunks.simps) simp
  next
    case (Some x)
    obtain chunk rest where x: "x = (chunk, rest)" by (cases x)
    show ?thesis
    proof (cases "num_commands st < MAX_RANKS")
      case True
      with "1.IH"[OF Some x[symmetric] True] Some x show ?thesis
        by (subst parse_loop.simps, subst chunks.simps) simp
    next
      case False
      with Some x show ?thesis
        by (subst parse_loop.simps, subst chunks.simps) simp
    qed
  qed
qed


lemma parse_all_stored:
  "length (entries (butlast (chunks fp))) < MAX_RANKS \<Longrightarrow>
   parse_loop fp roster_init = Inr (all_stored fp)"
proof -
  assume "length (entries (butlast (chunks fp))) < MAX_RANKS"
  then have "store_lines (chunks fp) roster_init = Inr (all_stored fp)"
    unfolding all_stored_def by (intro store_lines_ok) (simp add: roster_init_def)
  then show ?thesis by (simp add: parse_loop_chunks)
qed




subsection \<open>More lines than ranks, and the end of the array\<close>

text \<open>
  Claim C4 says that a file with more valid lines than ranks yields a warning and the
  dispatch of the first \<open>size\<close> lines, also when \<open>size\<close> is 5000. Evaluation of the
  program for a group of 5000 on a file of 5001 lines \<^verbatim>\<open>a\<close>: the 5001st read goes to row
  5000, past the end of the array; no warning and no message precede it. (Below the
  limit the warning is produced, see \<open>extra_ignored\<close>.)
\<close>

theorem no_warning_at_max_ranks:
  "rank_run (env_with_file (concat (replicate 5000 ''a\<newline>'') @ ''a\<newline>'')) [''cmdfile''] 0 5000 []
     = Inl (OutOfBounds 5000)"
  using a_lines_overflow[of "CHR ''a''"]
  by (simp add: MAX_RANKS_def rank_run_def roster_mode_def env_with_file_def)

text \<open>
  Claim C10 says that \<^verbatim>\<open>fgets\<close> is never called with row \<open>MAX_RANKS\<close> as destination.
  Evaluation of the parse on 5000 lines \<^verbatim>\<open>a\<close> followed by a line \<^verbatim>\<open>b\<close>: the loop condition
  calls \<^verbatim>\<open>fgets\<close> before it tests the count, and the line \<^verbatim>\<open>b\<close> is stored into row 5000.
\<close>

theorem fgets_row_overflow:
  "parse_loop (concat (replicate 5000 ''a\<newline>'') @ ''b\<newline>'') roster_init = Inl (OutOfBounds 5000)"
  using a_lines_overflow[of "CHR ''b''"] by (simp add: MAX_RANKS_def)

section \<open>Exit codes of the members\<close>

lemma run_system_expected:
  assumes "reportable t" and "system_status e cmd = wait_status t"
  shows "run_system e rank cmd = (child_events rank cmd t, expected_outcome t)"
proof (cases t)
  case (Exited c)
  with assms have c: "c < 256" by (simp add: reportable_def)
  show ?thesis
  proof (cases "c = 0")
    case True
    with Exited assms(2) show ?thesis
      by (simp add: run_system_def child_events_def expected_outcome_def)
  next
    case False
    then have "wait_status (Exited c) \<noteq> 0" by (simp only: wait_status_zero) simp
    with False Exited assms(2) exitcode_exited[OF c] show ?thesis
      by (simp add: run_system_def Let_def child_events_def expected_outcome_def
               del: wait_status.simps)
  qed
next
  case (Signaled sig core)
  with assms have s: "0 < sig" "sig < 128" by (simp_all add: reportable_def)
  from s(1) have "wait_status (Signaled sig core) \<noteq> 0" by (rule signaled_nonzero)
  with Signaled assms(2) exitcode_signaled[OF s, of core] show ?thesis
    by (simp add: run_system_def Let_def child_events_def expected_outcome_def
             del: wait_status.simps)
next
  case LaunchFailed
  with assms(2) exitcode_launch show ?thesis
    by (simp add: run_system_def Let_def child_events_def expected_outcome_def)
qed

text \<open>
  Claim C5. Let the child that a member starts for its command end in a way the
  operating system can report. Then \<^verbatim>\<open>main\<close> of that member ends as the specification
  says, in each of its three paths: a member of roster mode other than the coordinator
  that received the command, the coordinator of a group of at most \<open>MAX_RANKS\<close> whose
  parse reached the end of the file and whose own row holds the command, and a member
  of pattern mode whose script exists. It announces the command and calls
  \<^verbatim>\<open>system\<close>; a normal exit with a code \<open>c\<close> other than zero makes it report the failure and
  call \<^verbatim>\<open>MPI_Abort\<close> with \<open>c\<close>, an end by a signal or a child that could not be created
  makes it call \<^verbatim>\<open>MPI_Abort\<close> with \<open>-1\<close>, and an exit with code 0 lets it return 0. A
  member of roster mode with an empty assignment starts nothing and returns 0.
\<close>

theorem exit_code_propagation:
  assumes r: "reportable t" and s: "system_status e cmd = wait_status t" and ne: "cmd \<noteq> []"
  shows "(strchr arg (CHR ''*'') = None \<and> 0 < rank \<longrightarrow>
            rank_run e [arg] rank n cmd =
              Inr (Recv cmd # ExecutingCommand rank cmd # child_events rank cmd t,
                   expected_outcome t))
       \<and> (strchr arg (CHR ''*'') = None \<and> fopen_r e arg = Some fp
            \<and> length (entries (butlast (chunks fp))) < MAX_RANKS \<and> n \<le> MAX_RANKS
            \<and> mycmd0 (all_stored fp) = cmd \<longrightarrow>
            rank_run e [arg] 0 n inbox =
              Inr ((if n < num_commands (all_stored fp)
                    then [ExtraIgnored (num_commands (all_stored fp)) n] else [])
                   @ map (\<lambda>i. Send i (commands (all_stored fp) i)) [1..<n]
                   @ ExecutingCommand 0 cmd # child_events 0 cmd t,
                   expected_outcome t))
       \<and> (strchr arg (CHR ''*'') = Some star \<and> access_ok e (scriptfile_of arg star rank)
            \<and> snprintf MAX_LINE (''bash '' @ scriptfile_of arg star rank) = cmd \<longrightarrow>
            rank_run e [arg] rank n inbox =
              Inr (ExecutingScript rank (scriptfile_of arg star rank) # child_events rank cmd t,
                   expected_outcome t))
       \<and> (strchr arg (CHR ''*'') = None \<and> 0 < rank \<longrightarrow>
            rank_run e [arg] rank n [] = Inr ([Recv []], Return 0))
       \<and> (strchr arg (CHR ''*'') = None \<and> fopen_r e arg = Some fp
            \<and> length (entries (butlast (chunks fp))) < MAX_RANKS \<and> n \<le> MAX_RANKS
            \<and> mycmd0 (all_stored fp) = [] \<longrightarrow>
            rank_run e [arg] 0 n inbox =
              Inr ((if n < num_commands (all_stored fp)
                    then [ExtraIgnored (num_commands (all_stored fp)) n] else [])
                   @ map (\<lambda>i. Send i (commands (all_stored fp) i)) [1..<n],
                   Return 0))"
proof (intro conjI impI)
  note rs = run_system_expected[OF r s]
  have rm: "run_mycmd e k cmd = (ExecutingCommand k cmd # child_events k cmd t, expected_outcome t)" for k
    using ne by (simp add: run_mycmd_def rs)
  {
    assume "strchr arg (CHR ''*'') = None \<and> 0 < rank"
    then show "rank_run e [arg] rank n cmd =
              Inr (Recv cmd # ExecutingCommand rank cmd # child_events rank cmd t, expected_outcome t)"
      using member_run[of arg rank e n cmd] by (simp add: rm)
  }
  {
    assume h: "strchr arg (CHR ''*'') = None \<and> fopen_r e arg = Some fp
            \<and> length (entries (butlast (chunks fp))) < MAX_RANKS \<and> n \<le> MAX_RANKS
            \<and> mycmd0 (all_stored fp) = cmd"
    then show "rank_run e [arg] 0 n inbox =
              Inr ((if n < num_commands (all_stored fp)
                    then [ExtraIgnored (num_commands (all_stored fp)) n] else [])
                   @ map (\<lambda>i. Send i (commands (all_stored fp) i)) [1..<n]
                   @ ExecutingCommand 0 cmd # child_events 0 cmd t,
                   expected_outcome t)"
      using coordinator_run[of arg e fp "all_stored fp" n inbox] parse_all_stored[of fp]
      by (simp add: rm)
  }
  {
    assume h: "strchr arg (CHR ''*'') = Some star \<and> access_ok e (scriptfile_of arg star rank)
            \<and> snprintf MAX_LINE (''bash '' @ scriptfile_of arg star rank) = cmd"
    then show "rank_run e [arg] rank n inbox =
              Inr (ExecutingScript rank (scriptfile_of arg star rank) # child_events rank cmd t,
                   expected_outcome t)"
      by (simp add: rank_run_def pattern_mode_def Let_def rs)
  }
  {
    assume "strchr arg (CHR ''*'') = None \<and> 0 < rank"
    then show "rank_run e [arg] rank n [] = Inr ([Recv []], Return 0)"
      using member_run[of arg rank e n "[]"] by (simp add: run_mycmd_def)
  }
  {
    assume h: "strchr arg (CHR ''*'') = None \<and> fopen_r e arg = Some fp
            \<and> length (entries (butlast (chunks fp))) < MAX_RANKS \<and> n \<le> MAX_RANKS
            \<and> mycmd0 (all_stored fp) = []"
    then show "rank_run e [arg] 0 n inbox =
              Inr ((if n < num_commands (all_stored fp)
                    then [ExtraIgnored (num_commands (all_stored fp)) n] else [])
                   @ map (\<lambda>i. Send i (commands (all_stored fp) i)) [1..<n],
                   Return 0)"
      using coordinator_run[of arg e fp "all_stored fp" n inbox] parse_all_stored[of fp]
      by (simp add: run_mycmd_def)
  }
qed

theorem exit_code_propagation_witness:
  "rank_run \<lparr>access_ok = (\<lambda>_. True), system_status = (\<lambda>_. wait_status (Exited 7)),
             fopen_r = (\<lambda>_. Some ''exit 7\<newline>'')\<rparr> [''cmdfile''] 1 2 ''exit 7''
     = Inr ([Recv ''exit 7'', ExecutingCommand 1 ''exit 7'', System ''exit 7'',
             CommandFailed 1 7 ''exit 7''], Abort 7)
   \<and> rank_run \<lparr>access_ok = (\<lambda>_. True), system_status = (\<lambda>_. wait_status (Exited 7)),
             fopen_r = (\<lambda>_. Some ''exit 7\<newline>'')\<rparr> [''cmdfile''] 0 2 []
     = Inr ([Send 1 [], ExecutingCommand 0 ''exit 7'', System ''exit 7'',
             CommandFailed 0 7 ''exit 7''], Abort 7)
   \<and> rank_run \<lparr>access_ok = (\<lambda>_. True), system_status = (\<lambda>_. wait_status (Signaled 9 False)),
             fopen_r = (\<lambda>_. None)\<rparr> [''job_*.sh''] 2 4 []
     = Inr ([ExecutingScript 2 ''job_2.sh'', System ''bash job_2.sh'',
             CommandFailed 2 (- 1) ''bash job_2.sh''], Abort (- 1))
   \<and> rank_run \<lparr>access_ok = (\<lambda>_. True), system_status = (\<lambda>_. wait_status (Exited 0)),
             fopen_r = (\<lambda>_. Some [])\<rparr> [''cmdfile''] 1 2 ''true''
     = Inr ([Recv ''true'', ExecutingCommand 1 ''true'', System ''true''], Return 0)
   \<and> rank_run \<lparr>access_ok = (\<lambda>_. True), system_status = (\<lambda>_. wait_status (Exited 0)),
             fopen_r = (\<lambda>_. Some [])\<rparr> [''cmdfile''] 1 2 [] = Inr ([Recv []], Return 0)
   \<and> rank_run \<lparr>access_ok = (\<lambda>_. True), system_status = (\<lambda>_. wait_status (Exited 0)),
             fopen_r = (\<lambda>_. Some [])\<rparr> [''cmdfile''] 0 2 [] = Inr ([Send 1 []], Return 0)"
proof -
  let ?e7 = "\<lparr>access_ok = (\<lambda>_. True), system_status = (\<lambda>_. wait_status (Exited 7)),
             fopen_r = (\<lambda>_. Some ''exit 7\<newline>'')\<rparr>"
  let ?e9 = "\<lparr>access_ok = (\<lambda>_. True), system_status = (\<lambda>_. wait_status (Signaled 9 False)),
             fopen_r = (\<lambda>_. None)\<rparr>"
  let ?e0 = "\<lparr>access_ok = (\<lambda>_. True), system_status = (\<lambda>_. wait_status (Exited 0)),
             fopen_r = (\<lambda>_. Some [])\<rparr>"
  let ?fp = "''exit 7\<newline>''"
  have h: "strchr ''cmdfile'' (CHR ''*'') = None" by simp
  have two: "2 \<le> MAX_RANKS" by (simp add: MAX_RANKS_def)
  have r7: "reportable (Exited 7)" and r9: "reportable (Signaled 9 False)"
    and r0: "reportable (Exited 0)"
    by (simp_all add: reportable_def)
  have ev7: "child_events k cmd (Exited 7) = [System cmd, CommandFailed k 7 cmd]"
    and ev9: "child_events k cmd (Signaled 9 False) = [System cmd, CommandFailed k (- 1) cmd]"
    and ev0: "child_events k cmd (Exited 0) = [System cmd]" for k cmd
    by (simp_all add: child_events_def expected_outcome_def)
  have ch7: "chunks ?fp = [?fp]"
    by (simp add: chunks_Nil chunks_Cons MAX_LINE_def)
  have t7: "trim ?fp = ''exit 7''"
    by (simp add: trim_def cstr_def is_ws_def trim_tail.simps Let_def)
  have a7: "all_stored ?fp = store_line ?fp roster_init"
    by (simp add: all_stored_def ch7)
  have room7: "length (entries (butlast (chunks ?fp))) < MAX_RANKS"
    by (simp add: ch7 MAX_RANKS_def)
  have m7: "mycmd0 (all_stored ?fp) = ''exit 7''" and c7: "commands (all_stored ?fp) (Suc 0) = []"
    and n7: "num_commands (all_stored ?fp) = 1"
    by (simp_all add: a7 mycmd0_def store_line_num store_line_rows t7 qualifies_def roster_init_def)
  have a0: "all_stored [] = roster_init"
    by (simp add: all_stored_def chunks_Nil)
  have room0: "length (entries (butlast (chunks []))) < MAX_RANKS"
    by (simp add: chunks_Nil MAX_RANKS_def)
  have m0: "mycmd0 (all_stored []) = []" and c0: "commands (all_stored []) (Suc 0) = []"
    and n0: "num_commands (all_stored []) = 0"
    by (simp_all add: a0 mycmd0_def roster_init_def)
  have s9: "strchr ''job_*.sh'' (CHR ''*'') = Some 4" by simp
  have v9: "scriptfile_of ''job_*.sh'' 4 2 = ''job_2.sh''"
    by (simp add: scriptfile_of_def snprintf_def MAX_LINE_def decimal_digit digit_def)
  have b9: "snprintf MAX_LINE (''bash '' @ scriptfile_of ''job_*.sh'' 4 2) = ''bash job_2.sh''"
    by (simp add: v9 snprintf_def MAX_LINE_def)
  have w1: "rank_run ?e7 [''cmdfile''] 1 2 ''exit 7''
     = Inr ([Recv ''exit 7'', ExecutingCommand 1 ''exit 7'', System ''exit 7'',
             CommandFailed 1 7 ''exit 7''], Abort 7)"
    using exit_code_propagation[OF r7, where e = ?e7 and cmd = "''exit 7''" and arg = "''cmdfile''"
        and rank = 1 and n = 2] h
    by (simp add: ev7 expected_outcome_def)
  have w2: "rank_run ?e7 [''cmdfile''] 0 2 []
     = Inr ([Send 1 [], ExecutingCommand 0 ''exit 7'', System ''exit 7'',
             CommandFailed 0 7 ''exit 7''], Abort 7)"
    using exit_code_propagation[OF r7, where e = ?e7 and cmd = "''exit 7''" and arg = "''cmdfile''"
        and n = 2 and fp = ?fp and inbox = "[]"]
      h room7 two m7
    by (simp add: ev7 expected_outcome_def n7 c7 upt_conv_Cons)
  have w3: "rank_run ?e9 [''job_*.sh''] 2 4 []
     = Inr ([ExecutingScript 2 ''job_2.sh'', System ''bash job_2.sh'',
             CommandFailed 2 (- 1) ''bash job_2.sh''], Abort (- 1))"
    using exit_code_propagation[OF r9, where e = ?e9 and cmd = "''bash job_2.sh''"
        and arg = "''job_*.sh''" and rank = 2 and n = 4 and star = 4 and inbox = "[]"]
      s9 b9
    by (simp add: ev9 expected_outcome_def v9)
  have w4: "rank_run ?e0 [''cmdfile''] 1 2 ''true''
     = Inr ([Recv ''true'', ExecutingCommand 1 ''true'', System ''true''], Return 0)"
    using exit_code_propagation[OF r0, where e = ?e0 and cmd = "''true''" and arg = "''cmdfile''"
        and rank = 1 and n = 2] h
    by (simp add: ev0 expected_outcome_def)
  have w5: "rank_run ?e0 [''cmdfile''] 1 2 [] = Inr ([Recv []], Return 0)"
    using exit_code_propagation[OF r0, where e = ?e0 and cmd = "''true''" and arg = "''cmdfile''"
        and rank = 1 and n = 2] h
    by simp
  have w6: "rank_run ?e0 [''cmdfile''] 0 2 [] = Inr ([Send 1 []], Return 0)"
    using exit_code_propagation[OF r0, where e = ?e0 and cmd = "''true''" and arg = "''cmdfile''"
        and n = 2 and fp = "[]" and inbox = "[]"]
      h room0 two m0
    by (simp add: n0 c0 upt_conv_Cons)
  from w1 w2 w3 w4 w5 w6 show ?thesis by blast
qed

end
